theory Spec2Isabelle
  imports Complex_Main "HOL-Library.Word"
begin

section \<open>Typed arrays\<close>

text \<open>
  A \<open>Uint8Array\<close> is a fixed-length sequence of bytes. Its length never changes after
  creation; an indexed read outside the array yields \<open>undefined\<close> (here \<open>None\<close>) and an
  indexed write outside the array is silently dropped. Indices are JavaScript numbers
  whose values are integers here, so they are modelled as \<open>int\<close>.
\<close>

type_synonym uint8 = "8 word"
type_synonym Uint8Array = "uint8 list"

datatype js_error = RangeError | InvalidAccessError | InvalidStateError

definition newUint8Array :: "int \<Rightarrow> js_error + Uint8Array" where
  \<comment> \<open>\<open>new Uint8Array(n)\<close>: zero-filled; a negative length raises RangeError.\<close>
  "newUint8Array n = (if n < 0 then Inl RangeError else Inr (replicate (nat n) 0))"

definition readIndex :: "Uint8Array \<Rightarrow> int \<Rightarrow> uint8 option" where
  \<comment> \<open>\<open>arr[i]\<close> as an expression.\<close>
  "readIndex arr i = (if 0 \<le> i \<and> i < int (length arr) then Some (arr ! nat i) else None)"

definition writeIndex :: "Uint8Array \<Rightarrow> int \<Rightarrow> uint8 \<Rightarrow> Uint8Array" where
  \<comment> \<open>\<open>arr[i] = v\<close>.\<close>
  "writeIndex arr i v = (if 0 \<le> i \<and> i < int (length arr) then arr[nat i := v] else arr)"

definition orZero :: "uint8 option \<Rightarrow> uint8" where
  \<comment> \<open>\<open>e || 0\<close>: the operand itself when it is truthy, else 0.\<close>
  "orZero e = (case e of None \<Rightarrow> 0 | Some b \<Rightarrow> if b \<noteq> 0 then b else 0)"

definition relativeIndex :: "int \<Rightarrow> nat \<Rightarrow> int" where
  \<comment> \<open>How \<open>copyWithin\<close> reads each of its three arguments against the length.\<close>
  "relativeIndex r len = (if r < 0 then max (int len + r) 0 else min r (int len))"

definition copyWithin :: "'a list \<Rightarrow> int \<Rightarrow> int \<Rightarrow> int \<Rightarrow> 'a list" where
  \<comment> \<open>\<open>arr.copyWithin(target, start, end)\<close>: the block is read as it was before the
      call, so overlapping source and destination are handled.\<close>
  "copyWithin arr target start final =
     (let len = length arr;
          to = relativeIndex target len;
          from = relativeIndex start len;
          fin = relativeIndex final len;
          count = min (fin - from) (int len - to)
      in if count > 0
         then take (nat to) arr @ take (nat count) (drop (nat from) arr)
                @ drop (nat to + nat count) arr
         else arr)"

definition setFrom :: "Uint8Array \<Rightarrow> Uint8Array \<Rightarrow> js_error + Uint8Array" where
  \<comment> \<open>\<open>target.set(source)\<close>: a source longer than the target raises RangeError.\<close>
  "setFrom target source =
     (if length source > length target then Inl RangeError
      else Inr (source @ drop (length source) target))"

definition getByteFrequencyData :: "uint8 list \<Rightarrow> Uint8Array \<Rightarrow> Uint8Array" where
  \<comment> \<open>\<open>analyser.getByteFrequencyData(array)\<close>. The analyser is represented by the
      byte magnitudes of its bins at the moment of the call; bins beyond the array are
      dropped and array entries beyond the bins are left as they are.\<close>
  "getByteFrequencyData analyser array =
     take (length array) analyser @ drop (length analyser) array"

section \<open>The scroll update (spectrogramAnimation.ts)\<close>

function insertLoop :: "Uint8Array \<Rightarrow> int \<Rightarrow> int \<Rightarrow> int \<Rightarrow> Uint8Array \<Rightarrow> Uint8Array" where
  "insertLoop dataArray frequencySamples insertStart j heights =
     (if j \<le> frequencySamples
      then insertLoop dataArray frequencySamples insertStart (j + 1)
             (if j < frequencySamples
              then writeIndex heights (insertStart + j) (orZero (readIndex dataArray j))
              else writeIndex heights (insertStart + j)
                     (orZero (readIndex heights (insertStart + j - 1))))
      else heights)"
  by pat_completeness auto
termination
  by (relation "measure (\<lambda>(dataArray, frequencySamples, insertStart, j, heights).
                  nat (frequencySamples + 1 - j))") auto

declare insertLoop.simps [simp del]

definition updateSpectrogramData ::
  "uint8 list \<Rightarrow> Uint8Array \<Rightarrow> Uint8Array \<Rightarrow> int \<Rightarrow> int \<Rightarrow> js_error + (Uint8Array \<times> Uint8Array)" where
  \<comment> \<open>Returns the two arrays it mutates: \<open>(dataArray, heights)\<close>.\<close>
  "updateSpectrogramData analyser dataArray heights frequencySamples nVertices =
     (case newUint8Array frequencySamples of
        Inl e \<Rightarrow> Inl e
      | Inr tempData \<Rightarrow>
          (case setFrom dataArray (getByteFrequencyData analyser tempData) of
             Inl e \<Rightarrow> Inl e
           | Inr dataArray' \<Rightarrow>
               (let start_val = frequencySamples + 1;
                    end_val = nVertices - start_val;
                    heights' = copyWithin heights 0 start_val (nVertices + 1);
                    insertStart = end_val - start_val
                in Inr (dataArray', insertLoop dataArray' frequencySamples insertStart 0 heights'))))"

fun animate ::
  "uint8 list list \<Rightarrow> Uint8Array \<Rightarrow> Uint8Array \<Rightarrow> int \<Rightarrow> int \<Rightarrow> js_error + (Uint8Array \<times> Uint8Array)" where
  \<comment> \<open>The frame loop, one analyser reading per frame; rendering does not touch the arrays.\<close>
  "animate [] dataArray heights frequencySamples nVertices = Inr (dataArray, heights)"
| "animate (analyser # rest) dataArray heights frequencySamples nVertices =
     (case updateSpectrogramData analyser dataArray heights frequencySamples nVertices of
        Inl e \<Rightarrow> Inl e
      | Inr (dataArray', heights') \<Rightarrow> animate rest dataArray' heights' frequencySamples nVertices)"

section \<open>Helper calculations (spectrogramConfig.ts, spectrogramHelpers.ts)\<close>

text \<open>
  JavaScript numbers that hold sizes and coordinates are modelled as real numbers:
  the functions below are the source's expressions read over \<open>\<real>\<close>, without the rounding
  of IEEE doubles and without NaN or infinities. Sample counts are integers.
\<close>

definition SMOOTHING_TIME_CONSTANT :: real where "SMOOTHING_TIME_CONSTANT = 0.5"
definition FFT_MULTIPLIER :: real where "FFT_MULTIPLIER = 4"
definition MIN_FFT_SIZE :: real where "MIN_FFT_SIZE = 256"
definition MAX_FFT_SIZE :: real where "MAX_FFT_SIZE = 16384"

definition getNearestPowerOf2 :: "real \<Rightarrow> real" where
  \<comment> \<open>\<open>Math.round\<close> rounds halves up, as \<^const>\<open>round\<close> does.\<close>
  "getNearestPowerOf2 value =
     (if value \<le> 0 then MIN_FFT_SIZE
      else let power = round (log 2 value)
           in 2 powr (max (log 2 MIN_FFT_SIZE)
                          (min (log 2 MAX_FFT_SIZE) (real_of_int power))))"

definition calculateFFTSize :: "int \<Rightarrow> real" where
  "calculateFFTSize frequencySamples =
     getNearestPowerOf2 (FFT_MULTIPLIER * real_of_int frequencySamples)"

definition calculateVertexCount :: "int \<Rightarrow> int \<Rightarrow> int" where
  "calculateVertexCount frequencySamples timeSamples =
     (frequencySamples + 1) * (timeSamples + 1)"

definition calculateLogarithmicY :: "int \<Rightarrow> int \<Rightarrow> real \<Rightarrow> real" where
  "calculateLogarithmicY segmentIndex totalSegments ysize =
     (let ypow_max = ln ysize;
          yhalfSize = ysize / 2;
          powr' = (real_of_int (totalSegments - segmentIndex) / real_of_int totalSegments)
                    * ypow_max
      in - (exp 1 powr powr') + yhalfSize + 1)"

section \<open>Geometry (spectrogramGeometry.ts)\<close>

definition generateIndices :: "int \<Rightarrow> int \<Rightarrow> int list" where
  \<comment> \<open>Both loops run from 0 while the counter is below the segment count; each pass
      appends the six indices of one quad.\<close>
  "generateIndices timeSamples frequencySamples =
     (let xsegments = timeSamples;
          ysegments = frequencySamples
      in fold (\<lambda>i indices.
           fold (\<lambda>j indices.
             (let a = i * (ysegments + 1) + (j + 1);
                  b = i * (ysegments + 1) + j;
                  c = (i + 1) * (ysegments + 1) + j;
                  d = (i + 1) * (ysegments + 1) + (j + 1)
              in (indices @ [a, b, d]) @ [b, c, d]))
             [0..ysegments - 1] indices)
           [0..xsegments - 1] [])"

record GeometryParams =
  timeSamples :: int
  frequencySamples :: int
  xsize :: real
  ysize :: real

record VertexData =
  vertices :: "real list"
  heights :: Uint8Array
  nVertices :: int

definition generateVertices :: "GeometryParams \<Rightarrow> js_error + VertexData" where
  \<comment> \<open>Both loops include their upper bound. The accumulator is the pair of the
      \<open>vertices\<close> list and the \<open>heights\<close> array.\<close>
  "generateVertices params =
     (let xsegments = timeSamples params;
          ysegments = frequencySamples params;
          xhalfSize = xsize params / 2;
          xsegmentSize = xsize params / real_of_int xsegments;
          n = (frequencySamples params + 1) * (timeSamples params + 1)
      in case newUint8Array n of
           Inl e \<Rightarrow> Inl e
         | Inr zeroed \<Rightarrow>
             (let filled =
                fold (\<lambda>i acc.
                  (let x = real_of_int i * xsegmentSize - xhalfSize
                   in fold (\<lambda>j (vs, hs).
                        (let y = calculateLogarithmicY j ysegments (ysize params)
                         in (vs @ [x, y, 0], writeIndex hs (i * (ysegments + 1) + j) 0)))
                        [0..ysegments] acc))
                  [0..xsegments] ([], zeroed)
              in Inr \<lparr>vertices = fst filled, heights = snd filled, nVertices = n\<rparr>))"

record GeometryData = VertexData +
  indices :: "int list"
  displacement :: Uint8Array


text \<open>
  \<open>validateParameters\<close> receives an object of four JavaScript numbers and compares each
  with 0. A number is NaN or a real value here (infinities are not represented); every
  comparison with NaN is false, so NaN is not \<open>\<le> 0\<close> and not \<open>> 0\<close>. The fields carry a
  prime to keep them apart from those of \<open>GeometryParams\<close>.
\<close>

datatype number = NaN | Number real

definition jsLessEq :: "number \<Rightarrow> number \<Rightarrow> bool" where
  \<comment> \<open>\<open>a <= b\<close>.\<close>
  "jsLessEq a b = (case (a, b) of (Number x, Number y) \<Rightarrow> x \<le> y | _ \<Rightarrow> False)"


record SizeParams =
  xsize' :: number
  ysize' :: number
  frequencySamples' :: number
  timeSamples' :: number

record Validation =
  valid :: bool
  errors :: "string list"

definition validateParameters :: "SizeParams \<Rightarrow> Validation" where
  "validateParameters params =
     (let errors0 = [];
          errors1 = (if jsLessEq (xsize' params) (Number 0)
                     then errors0 @ [''xsize must be greater than 0''] else errors0);
          errors2 = (if jsLessEq (ysize' params) (Number 0)
                     then errors1 @ [''ysize must be greater than 0''] else errors1);
          errors3 = (if jsLessEq (frequencySamples' params) (Number 0)
                     then errors2 @ [''frequencySamples must be greater than 0''] else errors2);
          errors4 = (if jsLessEq (timeSamples' params) (Number 0)
                     then errors3 @ [''timeSamples must be greater than 0''] else errors3)
      in \<lparr>valid = (length errors4 = 0), errors = errors4\<rparr>)"

definition asNumbers :: "GeometryParams \<Rightarrow> SizeParams" where
  \<comment> \<open>The object \<open>{xsize, ysize, frequencySamples, timeSamples}\<close> that the component
      hands to \<open>validateParameters\<close>, for props that are finite numbers with integral
      sample counts.\<close>
  "asNumbers params =
     \<lparr>xsize' = Number (xsize params), ysize' = Number (ysize params),
      frequencySamples' = Number (real_of_int (frequencySamples params)),
      timeSamples' = Number (real_of_int (timeSamples params))\<rparr>"

section \<open>Colour schemes and the fragment shader (spectrogramShaders.ts)\<close>

datatype ColorScheme =
  GreenRed | PurpleYellow | BlueCyan | Purple | RedYellow | BlueMagenta
  | Rainbow | Grayscale | OrangeRed | CyanBlue | YellowGreen

fun COLOR_SCHEME_VALUES :: "ColorScheme \<Rightarrow> int" where
  "COLOR_SCHEME_VALUES GreenRed = 0"
| "COLOR_SCHEME_VALUES PurpleYellow = 1"
| "COLOR_SCHEME_VALUES BlueCyan = 2"
| "COLOR_SCHEME_VALUES Purple = 3"
| "COLOR_SCHEME_VALUES RedYellow = 4"
| "COLOR_SCHEME_VALUES BlueMagenta = 5"
| "COLOR_SCHEME_VALUES Rainbow = 6"
| "COLOR_SCHEME_VALUES Grayscale = 7"
| "COLOR_SCHEME_VALUES OrangeRed = 8"
| "COLOR_SCHEME_VALUES CyanBlue = 9"
| "COLOR_SCHEME_VALUES YellowGreen = 10"

definition getColorSchemeValue :: "ColorScheme \<Rightarrow> int" where
  \<comment> \<open>The table has an entry for every scheme, so the fallback to purple is never taken.\<close>
  "getColorSchemeValue colorScheme = COLOR_SCHEME_VALUES colorScheme"

type_synonym vec3 = "real \<times> real \<times> real"

definition addScalar :: "vec3 \<Rightarrow> real \<Rightarrow> vec3" where
  \<comment> \<open>GLSL \<open>vec3 + float\<close>: the scalar is added to every component.\<close>
  "addScalar v s = (case v of (r, g, b) \<Rightarrow> (r + s, g + s, b + s))"

definition getColor :: "int \<Rightarrow> real \<Rightarrow> vec3" where
  \<comment> \<open>The uniform \<open>colorScheme\<close> is the first argument.\<close>
  "getColor colorScheme intensity =
     (if colorScheme = 0 then (intensity, 1.0 - intensity, 0.0)
      else if colorScheme = 1 then
        (if intensity < 0.5
         then (intensity * 2.0 * 0.5, intensity * 2.0 * 0.2, intensity * 2.0 * 1.0)
         else (0.5 + (intensity - 0.5) * 2.0 * 0.5,
               0.2 + (intensity - 0.5) * 2.0 * 0.8,
               1.0 - (intensity - 0.5) * 2.0 * 0.5))
      else if colorScheme = 2 then (0.0, intensity, 1.0)
      else if colorScheme = 3 then
        (let purpleR = 0.2627; purpleG = 0.2471; purpleB = 0.5059
         in (purpleR * (0.3 + intensity * 0.7),
             purpleG * (0.3 + intensity * 0.7),
             purpleB * (0.3 + intensity * 0.7)))
      else if colorScheme = 4 then (1.0, intensity, 0.0)
      else if colorScheme = 5 then (intensity, 0.0, 1.0)
      else if colorScheme = 6 then
        (let hue = intensity * 5.0
         in if hue < 1.0 then (1.0, hue, 0.0)
            else if hue < 2.0 then (2.0 - hue, 1.0, 0.0)
            else if hue < 3.0 then (0.0, 1.0, hue - 2.0)
            else if hue < 4.0 then (0.0, 4.0 - hue, 1.0)
            else if hue < 5.0 then (hue - 4.0, 0.0, 1.0)
            else (1.0, 0.0, 6.0 - hue))
      else if colorScheme = 7 then (intensity, intensity, intensity)
      else if colorScheme = 8 then (1.0, 0.5 * (1.0 - intensity), 0.0)
      else if colorScheme = 9 then (0.0, 1.0 - intensity, 1.0)
      else if colorScheme = 10 then (1.0 - intensity, 1.0, 0.0)
      else
        (let purpleR = 0.2627; purpleG = 0.2471; purpleB = 0.5059
         in (purpleR * (0.3 + intensity * 0.7),
             purpleG * (0.3 + intensity * 0.7),
             purpleB * (0.3 + intensity * 0.7))))"

definition fragmentMain :: "int \<Rightarrow> real \<Rightarrow> vec3" where
  \<comment> \<open>\<open>main()\<close> of the fragment shader: the RGB part of \<open>gl_FragColor\<close> as a function of
      the uniform \<open>colorScheme\<close> and the varying \<open>vDisplacement\<close>.\<close>
  "fragmentMain colorScheme vDisplacement =
     (let intensity = vDisplacement / 255.0;
          color = getColor colorScheme intensity;
          glow = (if intensity > 0.5 then (intensity - 0.5) * 0.5 else 0.0);
          finalColor = addScalar color glow
      in if intensity < 0.01 then
           (if colorScheme = 0 then (0.0, 0.1, 0.0)
            else if colorScheme = 1 then (0.05, 0.0, 0.1)
            else if colorScheme = 2 then (0.0, 0.0, 0.1)
            else if colorScheme = 3 then (0.08, 0.07, 0.15)
            else if colorScheme = 4 then (0.1, 0.0, 0.0)
            else if colorScheme = 5 then (0.0, 0.0, 0.1)
            else if colorScheme = 6 then (0.05, 0.0, 0.0)
            else if colorScheme = 7 then (0.05, 0.05, 0.05)
            else if colorScheme = 8 then (0.1, 0.05, 0.0)
            else if colorScheme = 9 then (0.0, 0.1, 0.1)
            else if colorScheme = 10 then (0.1, 0.1, 0.0)
            else (0.08, 0.07, 0.15))
         else finalColor)"

section \<open>Audio teardown (spectrogramAudio.ts and the microphone helpers)\<close>

text \<open>
  The browser's audio objects are external to the program. They are represented by the
  state the teardown code can observe or change: whether a source node still has an
  outgoing connection, the \<open>state\<close> attribute of an audio context together with a flag
  for a close that has been requested and not yet completed, and the \<open>readyState\<close> of
  each track of a media stream. Whether a call to \<open>disconnect()\<close> raises and whether the
  promise of \<open>close()\<close> is rejected is decided by the browser; both decisions are
  parameters of the model. \<open>close()\<close> reports failure through its promise only, and
  \<open>track.stop()\<close> and the \<open>state\<close> getter do not raise.
\<close>

datatype AudioContextState = Suspended | Running | Closed

record AudioContext =
  state :: AudioContextState
  closing :: bool

record AudioNode =
  hasOutput :: bool

datatype TrackState = Live | Ended

type_synonym MediaStream = "TrackState list"

record Browser =
  disconnectRaises :: "AudioNode \<Rightarrow> bool"
  closeRejects :: "AudioContext \<Rightarrow> bool"

datatype 'a promise = Resolved 'a | Rejected js_error

definition disconnect :: "Browser \<Rightarrow> AudioNode \<Rightarrow> js_error + AudioNode" where
  "disconnect browser node =
     (if disconnectRaises browser node then Inl InvalidAccessError
      else Inr (node\<lparr>hasOutput := False\<rparr>))"

definition close :: "Browser \<Rightarrow> AudioContext \<Rightarrow> AudioContext promise" where
  \<comment> \<open>A close that is accepted is pending until its promise settles.\<close>
  "close browser ctx =
     (if closeRejects browser ctx then Rejected InvalidStateError
      else Resolved (ctx\<lparr>closing := True\<rparr>))"

definition settled :: "AudioContext \<Rightarrow> AudioContext" where
  \<comment> \<open>The context once the promise of an accepted close has been fulfilled.\<close>
  "settled ctx = ctx\<lparr>state := Closed, closing := False\<rparr>"

definition stop :: "TrackState \<Rightarrow> TrackState" where
  "stop track = Ended"

definition cleanupAudio ::
  "Browser \<Rightarrow> AudioNode option \<Rightarrow> AudioContext option
     \<Rightarrow> js_error + (AudioNode option \<times> AudioContext option)" where
  \<comment> \<open>Returns the two objects as the call leaves them. The \<open>catch\<close> block and the
      \<open>.catch\<close> handler are both empty.\<close>
  "cleanupAudio browser source audioContext =
     (let source' =
            (case source of
               None \<Rightarrow> None
             | Some node \<Rightarrow>
                 (case disconnect browser node of
                    Inl e \<Rightarrow> Some node
                  | Inr node' \<Rightarrow> Some node'));
          audioContext' =
            (case audioContext of
               None \<Rightarrow> None
             | Some ctx \<Rightarrow>
                 (if state ctx \<noteq> Closed
                  then (case close browser ctx of
                          Rejected e \<Rightarrow> Some ctx
                        | Resolved ctx' \<Rightarrow> Some ctx')
                  else Some ctx))
      in Inr (source', audioContext'))"

definition stopMicrophone ::
  "Browser \<Rightarrow> MediaStream option \<Rightarrow> AudioContext option
     \<Rightarrow> js_error + (MediaStream option \<times> AudioContext option)" where
  \<comment> \<open>The value is the outcome of the returned promise: \<open>Inl\<close> would be a rejection.
      The close is awaited inside \<open>try\<close>.\<close>
  "stopMicrophone browser stream audioContext =
     (let stream' =
            (case stream of
               None \<Rightarrow> None
             | Some tracks \<Rightarrow> Some (map stop tracks));
          audioContext' =
            (case audioContext of
               None \<Rightarrow> None
             | Some ctx \<Rightarrow>
                 (if state ctx \<noteq> Closed
                  then (case close browser ctx of
                          Rejected e \<Rightarrow> Some ctx
                        | Resolved ctx' \<Rightarrow> Some (settled ctx'))
                  else Some ctx))
      in Inr (stream', audioContext'))"

fun cleanupAudioTimes ::
  "nat \<Rightarrow> Browser \<Rightarrow> AudioNode option \<Rightarrow> AudioContext option
     \<Rightarrow> js_error + (AudioNode option \<times> AudioContext option)" where
  \<comment> \<open>\<open>n\<close> calls in a row on the same two objects; a raise ends the sequence.\<close>
  "cleanupAudioTimes 0 browser source audioContext = Inr (source, audioContext)"
| "cleanupAudioTimes (Suc n) browser source audioContext =
     (case cleanupAudio browser source audioContext of
        Inl e \<Rightarrow> Inl e
      | Inr (source', audioContext') \<Rightarrow> cleanupAudioTimes n browser source' audioContext')"

fun stopMicrophoneTimes ::
  "nat \<Rightarrow> Browser \<Rightarrow> MediaStream option \<Rightarrow> AudioContext option
     \<Rightarrow> js_error + (MediaStream option \<times> AudioContext option)" where
  "stopMicrophoneTimes 0 browser stream audioContext = Inr (stream, audioContext)"
| "stopMicrophoneTimes (Suc n) browser stream audioContext =
     (case stopMicrophone browser stream audioContext of
        Inl e \<Rightarrow> Inl e
      | Inr (stream', audioContext') \<Rightarrow> stopMicrophoneTimes n browser stream' audioContext')"

definition sourceReleased :: "AudioNode option \<Rightarrow> bool" where
  "sourceReleased source = (case source of None \<Rightarrow> True | Some node \<Rightarrow> \<not> hasOutput node)"

definition contextReleased :: "AudioContext option \<Rightarrow> bool" where
  "contextReleased audioContext =
     (case audioContext of None \<Rightarrow> True | Some ctx \<Rightarrow> state ctx = Closed \<or> closing ctx)"

definition streamReleased :: "MediaStream option \<Rightarrow> bool" where
  "streamReleased stream =
     (case stream of None \<Rightarrow> True | Some tracks \<Rightarrow> list_all (\<lambda>t. t = Ended) tracks)"

definition wellBehaved :: "Browser \<Rightarrow> bool" where
  \<comment> \<open>A browser in which teardown calls fail on released objects only: \<open>disconnect()\<close>
      raises only on a node without outputs, and \<open>close()\<close> is rejected only on a context
      that is closed or closing.\<close>
  "wellBehaved browser =
     ((\<forall>node. disconnectRaises browser node \<longrightarrow> \<not> hasOutput node) \<and>
      (\<forall>ctx. closeRejects browser ctx \<longrightarrow> state ctx = Closed \<or> closing ctx))"

section \<open>The component: refs, cleanup, scene initialisation and the effect (LiveSpectrogram.tsx)\<close>











section \<open>Properties of the typed-array operations\<close>

lemma length_writeIndex [simp]: "length (writeIndex arr i v) = length arr"
  by (simp add: writeIndex_def)

lemma relativeIndex_bounds:
  "0 \<le> relativeIndex r len" "relativeIndex r len \<le> int len"
  by (simp_all add: relativeIndex_def)

lemma length_copyWithin [simp]: "length (copyWithin arr target start final) = length arr"
proof -
  define dst where "dst = relativeIndex target (length arr)"
  define src where "src = relativeIndex start (length arr)"
  define fin where "fin = relativeIndex final (length arr)"
  define count where "count = min (fin - src) (int (length arr) - dst)"
  have b: "0 \<le> dst" "dst \<le> int (length arr)" "0 \<le> src" "fin \<le> int (length arr)"
    unfolding dst_def src_def fin_def by (rule relativeIndex_bounds)+
  have eq: "copyWithin arr target start final =
        (if count > 0
         then take (nat dst) arr @ take (nat count) (drop (nat src) arr)
                @ drop (nat dst + nat count) arr
         else arr)"
    unfolding copyWithin_def Let_def dst_def src_def fin_def count_def ..
  show ?thesis
  proof (cases "count > 0")
    case True
    have c1: "nat count \<le> length arr - nat src" and c2: "nat dst + nat count \<le> length arr"
      using b True unfolding count_def by linarith+
    have "nat dst \<le> length arr" using b by linarith
    then show ?thesis using True eq c1 c2 by (simp add: min_absorb2 min_absorb1)
  next
    case False
    then show ?thesis using eq by simp
  qed
qed

lemma length_insertLoop [simp]:
  "length (insertLoop dataArray fs ins j hs) = length hs"
proof (induction dataArray fs ins j hs rule: insertLoop.induct)
  case (1 dataArray fs ins j hs)
  show ?case
  proof (cases "j \<le> fs")
    case True
    then show ?thesis
      using "1.IH" by (subst insertLoop.simps) simp
  next
    case False
    then show ?thesis by (subst insertLoop.simps) simp
  qed
qed

lemma nth_writeIndex_other:
  "int k \<noteq> i \<Longrightarrow> writeIndex arr i v ! k = arr ! k"
  by (auto simp: writeIndex_def)

lemma nth_writeIndex_same:
  "0 \<le> i \<Longrightarrow> i < int (length arr) \<Longrightarrow> writeIndex arr i v ! nat i = v"
  by (simp add: writeIndex_def)

lemma insertLoop_untouched:
  "int k < ins + j \<or> ins + fs < int k \<Longrightarrow>
   insertLoop dataArray fs ins j hs ! k = hs ! k"
proof (induction dataArray fs ins j hs rule: insertLoop.induct)
  case (1 dataArray fs ins j hs)
  show ?case
  proof (cases "j \<le> fs")
    case True
    let ?hs' = "if j < fs
              then writeIndex hs (ins + j) (orZero (readIndex dataArray j))
              else writeIndex hs (ins + j) (orZero (readIndex hs (ins + j - 1)))"
    have ne: "int k \<noteq> ins + j" using "1.prems" True by auto
    have "insertLoop dataArray fs ins j hs ! k = insertLoop dataArray fs ins (j + 1) ?hs' ! k"
      using True by (subst insertLoop.simps) simp
    also have "\<dots> = ?hs' ! k"
      using "1.IH" [OF True] "1.prems" by auto
    also have "\<dots> = hs ! k"
      using ne by (simp add: nth_writeIndex_other)
    finally show ?thesis .
  next
    case False
    then show ?thesis by (subst insertLoop.simps) simp
  qed
qed

lemma insertLoop_sample:
  "0 \<le> j \<Longrightarrow> j \<le> i \<Longrightarrow> i < fs \<Longrightarrow> 0 \<le> ins + i \<Longrightarrow> ins + i < int (length hs) \<Longrightarrow>
   insertLoop dataArray fs ins j hs ! nat (ins + i) = orZero (readIndex dataArray i)"
proof (induction dataArray fs ins j hs rule: insertLoop.induct)
  case (1 dataArray fs ins j hs)
  let ?hs' = "writeIndex hs (ins + j) (orZero (readIndex dataArray j))"
  have jfs: "j < fs" "j \<le> fs" using "1.prems" by auto
  have step: "insertLoop dataArray fs ins j hs = insertLoop dataArray fs ins (j + 1) ?hs'"
    using jfs by (subst insertLoop.simps) simp
  show ?case
  proof (cases "i = j")
    case True
    have "insertLoop dataArray fs ins (j + 1) ?hs' ! nat (ins + i) = ?hs' ! nat (ins + i)"
      using True "1.prems" by (intro insertLoop_untouched) auto
    also have "\<dots> = orZero (readIndex dataArray i)"
      using True "1.prems" by (simp add: nth_writeIndex_same)
    finally show ?thesis using step by simp
  next
    case False
    then have "j + 1 \<le> i" using "1.prems" by auto
    then have "insertLoop dataArray fs ins (j + 1) ?hs' ! nat (ins + i) = orZero (readIndex dataArray i)"
      using "1.IH" [OF jfs(2)] jfs "1.prems" by simp
    then show ?thesis using step by simp
  qed
qed

lemma orZero_Some [simp]: "orZero (Some b) = b"
  by (simp add: orZero_def)

lemma insertLoop_closing:
  "0 \<le> j \<Longrightarrow> j \<le> fs \<Longrightarrow> 0 < fs \<Longrightarrow> 0 \<le> ins \<Longrightarrow> ins + fs < int (length hs) \<Longrightarrow>
   insertLoop dataArray fs ins j hs ! nat (ins + fs) =
   insertLoop dataArray fs ins j hs ! nat (ins + fs - 1)"
proof (induction dataArray fs ins j hs rule: insertLoop.induct)
  case (1 dataArray fs ins j hs)
  show ?case
  proof (cases "j < fs")
    case True
    let ?hs' = "writeIndex hs (ins + j) (orZero (readIndex dataArray j))"
    have step: "insertLoop dataArray fs ins j hs = insertLoop dataArray fs ins (j + 1) ?hs'"
      using True by (subst insertLoop.simps) simp
    show ?thesis
      using "1.IH" True "1.prems" step by simp
  next
    case False
    then have eq: "j = fs" using "1.prems" by simp
    let ?hs' = "writeIndex hs (ins + fs) (orZero (readIndex hs (ins + fs - 1)))"
    have step: "insertLoop dataArray fs ins j hs = ?hs'"
      using eq by (subst insertLoop.simps, subst insertLoop.simps) simp
    have rd: "readIndex hs (ins + fs - 1) = Some (hs ! nat (ins + fs - 1))"
      using "1.prems" by (simp add: readIndex_def)
    have "?hs' ! nat (ins + fs) = hs ! nat (ins + fs - 1)"
      using "1.prems" rd by (simp add: nth_writeIndex_same)
    moreover have "?hs' ! nat (ins + fs - 1) = hs ! nat (ins + fs - 1)"
      using "1.prems" by (intro nth_writeIndex_other) auto
    ultimately show ?thesis using step by simp
  qed
qed



lemma copyWithin_column:
  assumes "0 \<le> s" and "int (length arr) \<le> n"
  shows "copyWithin arr 0 s (n + 1) =
         (if s < int (length arr) then drop (nat s) arr @ drop (length arr - nat s) arr else arr)"
proof (cases "s < int (length arr)")
  case True
  have "relativeIndex s (length arr) = s" "relativeIndex (n + 1) (length arr) = int (length arr)"
       "relativeIndex 0 (length arr) = 0"
    using assms True by (simp_all add: relativeIndex_def)
  moreover have "nat (int (length arr) - s) = length arr - nat s"
    using assms by linarith
  ultimately show ?thesis
    using True assms by (simp add: copyWithin_def Let_def)
next
  case False
  have "relativeIndex s (length arr) = int (length arr)" "relativeIndex (n + 1) (length arr) = int (length arr)"
    using assms False by (simp_all add: relativeIndex_def)
  then show ?thesis using False by (simp add: copyWithin_def Let_def)
qed

lemma copyWithin_shift:
  assumes "0 \<le> s" and "int k + s < int (length arr)" and "int (length arr) \<le> n"
  shows "copyWithin arr 0 s (n + 1) ! k = arr ! (k + nat s)"
proof -
  have lt: "k < length arr - nat s" and s: "s < int (length arr)" using assms by linarith+
  have "copyWithin arr 0 s (n + 1) = drop (nat s) arr @ drop (length arr - nat s) arr"
    using copyWithin_column [OF assms(1) assms(3)] s by simp
  then show ?thesis
    using lt by (simp add: nth_append add.commute)
qed

lemma copyWithin_tail:
  assumes "0 \<le> s" and "int (length arr) \<le> int k + s" and "k < length arr" and "int (length arr) \<le> n"
  shows "copyWithin arr 0 s (n + 1) ! k = arr ! k"
proof (cases "s < int (length arr)")
  case True
  have ge: "length arr - nat s \<le> k" using assms by linarith
  have "nat s \<le> length arr" using True assms by linarith
  then have "length arr - nat s + (k - (length arr - nat s)) = k"
    using ge by linarith
  then show ?thesis
    using assms True ge by (simp add: copyWithin_column nth_append)
next
  case False
  then show ?thesis using assms by (simp add: copyWithin_column)
qed

section \<open>Properties of one scroll update and of the frame loop\<close>

lemma length_getByteFrequencyData [simp]:
  "length (getByteFrequencyData analyser array) = length array"
  by (simp add: getByteFrequencyData_def min_def)

lemma updateSpectrogramData_result:
  assumes "0 \<le> fs" and "nat fs \<le> length d"
  shows "updateSpectrogramData a d hs fs nV =
         Inr (getByteFrequencyData a (replicate (nat fs) 0) @ drop (nat fs) d,
              insertLoop (getByteFrequencyData a (replicate (nat fs) 0) @ drop (nat fs) d) fs
                (nV - (fs + 1) - (fs + 1)) 0 (copyWithin hs 0 (fs + 1) (nV + 1)))"
proof -
  have "newUint8Array fs = Inr (replicate (nat fs) 0)"
    using assms by (simp add: newUint8Array_def)
  moreover have "setFrom d (getByteFrequencyData a (replicate (nat fs) 0)) =
                 Inr (getByteFrequencyData a (replicate (nat fs) 0) @ drop (nat fs) d)"
    using assms by (simp add: setFrom_def)
  ultimately show ?thesis
    unfolding updateSpectrogramData_def Let_def by simp
qed

lemma tick_last_column:
  assumes "0 \<le> fs" and "int (length hs) = nV" and "nV - (fs + 1) \<le> int k" and "int k < nV"
  shows "insertLoop d' fs (nV - (fs + 1) - (fs + 1)) 0 (copyWithin hs 0 (fs + 1) (nV + 1)) ! k
         = hs ! k"
proof -
  have "insertLoop d' fs (nV - (fs + 1) - (fs + 1)) 0 (copyWithin hs 0 (fs + 1) (nV + 1)) ! k
        = copyWithin hs 0 (fs + 1) (nV + 1) ! k"
    using assms by (intro insertLoop_untouched) linarith
  also have "\<dots> = hs ! k"
    using assms by (intro copyWithin_tail) linarith+
  finally show ?thesis .
qed

lemma tick_shifted:
  assumes "0 \<le> fs" and "int (length hs) = nV" and "int k < nV - (fs + 1) - (fs + 1)"
  shows "insertLoop d' fs (nV - (fs + 1) - (fs + 1)) 0 (copyWithin hs 0 (fs + 1) (nV + 1)) ! k
         = hs ! (k + nat (fs + 1))"
proof -
  have "insertLoop d' fs (nV - (fs + 1) - (fs + 1)) 0 (copyWithin hs 0 (fs + 1) (nV + 1)) ! k
        = copyWithin hs 0 (fs + 1) (nV + 1) ! k"
    using assms by (intro insertLoop_untouched) linarith
  also have "\<dots> = hs ! (k + nat (fs + 1))"
    using assms by (intro copyWithin_shift) linarith+
  finally show ?thesis .
qed

lemma animate_last_column:
  assumes "0 \<le> fs" and "nat fs \<le> length d" and "int (length hs) = nV"
  shows "\<exists>d' hs'. animate frames d hs fs nV = Inr (d', hs') \<and> length d' = length d \<and>
           length hs' = length hs \<and>
           (\<forall>k. nV - (fs + 1) \<le> int k \<and> int k < nV \<longrightarrow> hs' ! k = hs ! k)"
  using assms
proof (induction frames arbitrary: d hs)
  case Nil
  then show ?case by simp
next
  case (Cons a frames)
  let ?d1 = "getByteFrequencyData a (replicate (nat fs) 0) @ drop (nat fs) d"
  let ?h1 = "insertLoop ?d1 fs (nV - (fs + 1) - (fs + 1)) 0 (copyWithin hs 0 (fs + 1) (nV + 1))"
  have step: "updateSpectrogramData a d hs fs nV = Inr (?d1, ?h1)"
    using Cons.prems by (intro updateSpectrogramData_result)
  have len: "length ?d1 = length d" "length ?h1 = length hs"
    using Cons.prems by simp_all
  have keep: "\<forall>k. nV - (fs + 1) \<le> int k \<and> int k < nV \<longrightarrow> ?h1 ! k = hs ! k"
  proof (intro allI impI)
    fix k assume "nV - (fs + 1) \<le> int k \<and> int k < nV"
    then show "?h1 ! k = hs ! k"
      using tick_last_column [of fs hs nV k ?d1] Cons.prems by blast
  qed
  obtain d' hs' where run: "animate frames ?d1 ?h1 fs nV = Inr (d', hs')"
      and len': "length d' = length ?d1" "length hs' = length ?h1"
      and keep': "\<forall>k. nV - (fs + 1) \<le> int k \<and> int k < nV \<longrightarrow> hs' ! k = ?h1 ! k"
    using Cons.IH [of ?d1 ?h1] Cons.prems len by auto
  have "animate (a # frames) d hs fs nV = Inr (d', hs')"
    using step run by simp
  moreover have "\<forall>k. nV - (fs + 1) \<le> int k \<and> int k < nV \<longrightarrow> hs' ! k = hs ! k"
    using keep keep' by simp
  ultimately show ?case
    using len len' by simp
qed

section \<open>Properties of the generated geometry\<close>

lemma fold_append_concat:
  "fold (\<lambda>x acc. acc @ g x) xs acc = acc @ concat (map g xs)"
  by (induction xs arbitrary: acc) simp_all

lemma length_concat_uniform:
  "(\<And>x. x \<in> set xs \<Longrightarrow> length (g x) = m) \<Longrightarrow> length (concat (map g xs)) = length xs * m"
  by (induction xs) simp_all

lemma nth_concat_uniform:
  "(\<And>x. x \<in> set xs \<Longrightarrow> length (g x) = m) \<Longrightarrow> a < length xs \<Longrightarrow> b < m \<Longrightarrow>
   concat (map g xs) ! (a * m + b) = g (xs ! a) ! b"
proof (induction xs arbitrary: a)
  case Nil
  then show ?case by simp
next
  case (Cons x xs)
  have lx: "length (g x) = m" using Cons.prems(1) by simp
  show ?case
  proof (cases a)
    case 0
    then show ?thesis using lx Cons.prems by (simp add: nth_append)
  next
    case (Suc a')
    have "concat (map g xs) ! (a' * m + b) = g (xs ! a') ! b"
      using Cons.IH [of a'] Cons.prems Suc by simp
    moreover have "Suc a' * m + b = m + (a' * m + b)" by simp
    ultimately show ?thesis using lx Suc by (simp add: nth_append del: mult_Suc)
  qed
qed

lemma fold_fold_append:
  "fold (\<lambda>i. fold (\<lambda>j acc. acc @ q i j) js) rows acc
   = acc @ concat (map (\<lambda>i. concat (map (q i) js)) rows)"
  by (induction rows arbitrary: acc) (simp_all add: fold_append_concat)

lemma generateIndices_concat:
  "generateIndices ts fs =
   concat (map (\<lambda>i. concat (map (\<lambda>j.
       [i * (fs + 1) + (j + 1), i * (fs + 1) + j, (i + 1) * (fs + 1) + (j + 1),
        i * (fs + 1) + j, (i + 1) * (fs + 1) + j, (i + 1) * (fs + 1) + (j + 1)])
     [0..fs - 1])) [0..ts - 1])"
proof -
  have "generateIndices ts fs =
        fold (\<lambda>i. fold (\<lambda>j acc. acc @
          [i * (fs + 1) + (j + 1), i * (fs + 1) + j, (i + 1) * (fs + 1) + (j + 1),
           i * (fs + 1) + j, (i + 1) * (fs + 1) + j, (i + 1) * (fs + 1) + (j + 1)])
          [0..fs - 1]) [0..ts - 1] []"
    by (simp add: generateIndices_def Let_def)
  then show ?thesis
    by (simp only: fold_fold_append append_Nil)
qed

lemma quad_position:
  assumes "0 \<le> i" "i < ts" "0 \<le> j" "j < fs" "b < 6"
  shows "generateIndices ts fs ! (6 * (nat i * nat fs + nat j) + b) =
         [i * (fs + 1) + (j + 1), i * (fs + 1) + j, (i + 1) * (fs + 1) + (j + 1),
          i * (fs + 1) + j, (i + 1) * (fs + 1) + j, (i + 1) * (fs + 1) + (j + 1)] ! b"
proof -
  let ?q = "\<lambda>i j. [i * (fs + 1) + (j + 1), i * (fs + 1) + j, (i + 1) * (fs + 1) + (j + 1),
        i * (fs + 1) + j, (i + 1) * (fs + 1) + j, (i + 1) * (fs + 1) + (j + 1)]"
  let ?row = "\<lambda>i. concat (map (?q i) [0..fs - 1])"
  have rowlen: "\<And>i. length (?row i) = nat fs * 6"
    using length_concat_uniform [where g = "?q i" and xs = "[0..fs - 1]" and m = 6 for i]
    by simp
  have ni: "nat i < length [0..ts - 1]" and nj: "nat j < length [0..fs - 1]"
    using assms by simp_all
  have inrow: "nat j * 6 + b < nat fs * 6"
  proof -
    have "nat j + 1 \<le> nat fs" using assms by linarith
    then have "(nat j + 1) * 6 \<le> nat fs * 6" by (rule mult_le_mono1)
    then show ?thesis using assms by simp
  qed
  have "generateIndices ts fs ! (nat i * (nat fs * 6) + (nat j * 6 + b))
        = ?row ([0..ts - 1] ! nat i) ! (nat j * 6 + b)"
    unfolding generateIndices_concat
    using rowlen ni inrow by (intro nth_concat_uniform) simp_all
  also have "[0..ts - 1] ! nat i = i"
    using assms by (simp add: nth_upto)
  also have "?row i ! (nat j * 6 + b) = ?q i ([0..fs - 1] ! nat j) ! b"
    using nj assms by (intro nth_concat_uniform) simp_all
  also have "[0..fs - 1] ! nat j = j"
    using assms by (simp add: nth_upto)
  finally have "generateIndices ts fs ! (nat i * (nat fs * 6) + (nat j * 6 + b)) = ?q i j ! b" .
  moreover have "6 * (nat i * nat fs + nat j) + b = nat i * (nat fs * 6) + (nat j * 6 + b)"
    by (simp add: algebra_simps)
  ultimately show ?thesis by (simp only:)
qed

lemma length_generateIndices:
  "length (generateIndices ts fs) = 6 * (nat ts * nat fs)"
proof -
  let ?q = "\<lambda>i j. [i * (fs + 1) + (j + 1), i * (fs + 1) + j, (i + 1) * (fs + 1) + (j + 1),
        i * (fs + 1) + j, (i + 1) * (fs + 1) + j, (i + 1) * (fs + 1) + (j + 1)]"
  have rowlen: "\<And>i. length (concat (map (?q i) [0..fs - 1])) = nat fs * 6"
    using length_concat_uniform [where g = "?q i" and xs = "[0..fs - 1]" and m = 6 for i]
    by simp
  have "length (generateIndices ts fs) = length [0..ts - 1] * (nat fs * 6)"
    unfolding generateIndices_concat
    using rowlen by (intro length_concat_uniform) simp
  then show ?thesis by simp
qed
lemma writeIndex_zeroed [simp]: "writeIndex (replicate n 0) i 0 = replicate n 0"
  by (auto simp: writeIndex_def intro: nth_equalityI simp: nth_list_update)

lemma vertex_row_fold:
  "fold (\<lambda>j (vs, hs). (vs @ [x, y j, 0], writeIndex hs (c + j) 0)) js (vs, replicate n 0)
   = (vs @ concat (map (\<lambda>j. [x, y j, 0]) js), replicate n 0)"
  by (induction js arbitrary: vs) simp_all

lemma vertex_grid_fold:
  "fold (\<lambda>i acc. fold (\<lambda>j (vs, hs). (vs @ [x i, y j, 0], writeIndex hs (c i + j) 0)) js acc)
        rows (vs, replicate n 0)
   = (vs @ concat (map (\<lambda>i. concat (map (\<lambda>j. [x i, y j, 0]) js)) rows), replicate n 0)"
  by (induction rows arbitrary: vs) (simp_all add: vertex_row_fold)

lemma generateVertices_result:
  assumes "0 \<le> (frequencySamples p + 1) * (timeSamples p + 1)"
  shows "generateVertices p =
         Inr \<lparr>vertices = concat (map (\<lambda>i. concat (map (\<lambda>j.
                   [real_of_int i * (xsize p / real_of_int (timeSamples p)) - xsize p / 2,
                    calculateLogarithmicY j (frequencySamples p) (ysize p), 0])
                 [0..frequencySamples p])) [0..timeSamples p]),
              heights = replicate (nat ((frequencySamples p + 1) * (timeSamples p + 1))) 0,
              nVertices = (frequencySamples p + 1) * (timeSamples p + 1)\<rparr>"
proof -
  have "newUint8Array ((frequencySamples p + 1) * (timeSamples p + 1)) =
        Inr (replicate (nat ((frequencySamples p + 1) * (timeSamples p + 1))) 0)"
    using assms by (simp add: newUint8Array_def)
  then show ?thesis
    unfolding generateVertices_def Let_def
    using vertex_grid_fold [where vs = "[]"
        and x = "\<lambda>i. real_of_int i * (xsize p / real_of_int (timeSamples p)) - xsize p / 2"
        and y = "\<lambda>j. calculateLogarithmicY j (frequencySamples p) (ysize p)"
        and c = "\<lambda>i. i * (frequencySamples p + 1)"
        and js = "[0..frequencySamples p]" and rows = "[0..timeSamples p]"
        and n = "nat ((frequencySamples p + 1) * (timeSamples p + 1))"]
    by simp
qed

lemma validateParameters_valid:
  "valid (validateParameters (asNumbers p)) \<longleftrightarrow>
   0 < xsize p \<and> 0 < ysize p \<and> 0 < frequencySamples p \<and> 0 < timeSamples p"
  by (simp add: validateParameters_def asNumbers_def jsLessEq_def Let_def)

lemma vertex_position:
  assumes "0 \<le> i" "i \<le> ts" "0 \<le> j" "j \<le> fs" "b < 3"
  shows "concat (map (\<lambda>i. concat (map (\<lambda>j. [x i, y j, 0::real]) [0..fs])) [0..ts])
           ! (3 * nat (i * (fs + 1) + j) + b) = [x i, y j, 0] ! b"
proof -
  let ?row = "\<lambda>i. concat (map (\<lambda>j. [x i, y j, 0::real]) [0..fs])"
  have rowlen: "\<And>i. length (?row i) = nat (fs + 1) * 3"
    using length_concat_uniform [where g = "\<lambda>j. [x i, y j, 0::real]" and xs = "[0..fs]" and m = 3 for i]
    by simp
  have ni: "nat i < length [0..ts]" and nj: "nat j < length [0..fs]"
    using assms by simp_all
  have inrow: "nat j * 3 + b < nat (fs + 1) * 3"
  proof -
    have "nat j + 1 \<le> nat (fs + 1)" using assms by linarith
    then have "(nat j + 1) * 3 \<le> nat (fs + 1) * 3" by (rule mult_le_mono1)
    then show ?thesis using assms by simp
  qed
  have "concat (map ?row [0..ts]) ! (nat i * (nat (fs + 1) * 3) + (nat j * 3 + b))
        = ?row ([0..ts] ! nat i) ! (nat j * 3 + b)"
    using rowlen ni inrow by (intro nth_concat_uniform) simp_all
  also have "[0..ts] ! nat i = i"
    using assms by (simp add: nth_upto)
  also have "?row i ! (nat j * 3 + b) = [x i, y ([0..fs] ! nat j), 0] ! b"
    using nj assms by (intro nth_concat_uniform) simp_all
  also have "[0..fs] ! nat j = j"
    using assms by (simp add: nth_upto)
  finally have main: "concat (map ?row [0..ts]) ! (nat i * (nat (fs + 1) * 3) + (nat j * 3 + b))
        = [x i, y j, 0] ! b" .
  have "nat (i * (fs + 1) + j) = nat i * nat (fs + 1) + nat j"
    using assms by (simp add: nat_add_distrib nat_mult_distrib)
  then have "3 * nat (i * (fs + 1) + j) + b = nat i * (nat (fs + 1) * 3) + (nat j * 3 + b)"
    by (simp add: algebra_simps)
  then show ?thesis using main by (simp only:)
qed

lemma calculateLogarithmicY_exp:
  "calculateLogarithmicY j n y =
   - exp ((real_of_int (n - j) / real_of_int n) * ln y) + y / 2 + 1"
  by (simp add: calculateLogarithmicY_def Let_def powr_def)

section \<open>Properties of the FFT size\<close>

lemma log2_MIN_FFT_SIZE: "log 2 MIN_FFT_SIZE = 8"
proof -
  have "log 2 ((2::real) ^ 8) = real 8" by (rule log_pow_cancel) simp_all
  then show ?thesis by (simp add: MIN_FFT_SIZE_def)
qed

lemma log2_MAX_FFT_SIZE: "log 2 MAX_FFT_SIZE = 14"
proof -
  have "log 2 ((2::real) ^ 14) = real 14" by (rule log_pow_cancel) simp_all
  then show ?thesis by (simp add: MAX_FFT_SIZE_def)
qed

lemma two_powr_clamp:
  "(2::real) powr (max 8 (min 14 r)) = max 256 (min 16384 (2 powr r))"
proof -
  have p8: "(2::real) powr 8 = 256" and p14: "(2::real) powr 14 = 16384"
    by simp_all
  consider "r \<le> 8" | "8 < r" "r \<le> 14" | "14 < r" by linarith
  then show ?thesis
  proof cases
    case 1
    have "(2::real) powr r \<le> 256" using powr_mono [of r 8 "2::real"] 1 by simp
    moreover    moreover have "max 8 (min 14 r) = 8" using 1 by simp
    ultimately show ?thesis by simp
  next
    case 2
    have "256 \<le> (2::real) powr r" "(2::real) powr r \<le> 16384"
      using powr_mono [of 8 r "2::real"] powr_mono [of r 14 "2::real"] 2 by simp_all
    moreover have "max 8 (min 14 r) = r" using 2 by simp
    ultimately show ?thesis by simp
  next
    case 3
    have "16384 \<le> (2::real) powr r" using powr_mono [of 14 r "2::real"] 3 by simp
    moreover have "max 8 (min 14 r) = 14" using 3 by simp
    ultimately show ?thesis by simp
  qed
qed


lemma getNearestPowerOf2_pos:
  assumes "0 < v"
  shows "getNearestPowerOf2 v = max 256 (min 16384 (2 powr real_of_int (round (log 2 v))))"
proof -
  have "getNearestPowerOf2 v = 2 powr (max 8 (min 14 (real_of_int (round (log 2 v)))))"
    using assms
    by (simp only: getNearestPowerOf2_def Let_def log2_MIN_FFT_SIZE log2_MAX_FFT_SIZE) simp
  then show ?thesis by (simp only: two_powr_clamp)
qed

lemma getNearestPowerOf2_exponent:
  "\<exists>k. 8 \<le> k \<and> k \<le> 14 \<and> getNearestPowerOf2 v = 2 ^ k"
proof (cases "0 < v")
  case False
  then have "getNearestPowerOf2 v = 2 ^ 8"
    by (simp add: getNearestPowerOf2_def MIN_FFT_SIZE_def)
  then show ?thesis by (intro exI [of _ 8]) simp
next
  case True
  define e where "e = max 8 (min 14 (round (log 2 v)))"
  have e: "8 \<le> e" "e \<le> 14" by (simp_all add: e_def)
  have "real_of_int e = max 8 (min 14 (real_of_int (round (log 2 v))))"
    unfolding e_def by (simp only: of_int_max of_int_min of_int_numeral)
  moreover have "getNearestPowerOf2 v = 2 powr (max 8 (min 14 (real_of_int (round (log 2 v)))))"
    using True
    by (simp only: getNearestPowerOf2_def Let_def log2_MIN_FFT_SIZE log2_MAX_FFT_SIZE) simp
  ultimately have "getNearestPowerOf2 v = 2 powr real_of_int e" by (simp only:)
  also have "real_of_int e = real (nat e)" using e by simp
  also have "2 powr real (nat e) = (2::real) ^ nat e" by (simp add: powr_realpow)
  finally have "getNearestPowerOf2 v = 2 ^ nat e" .
  moreover have "8 \<le> nat e" "nat e \<le> 14" using e by linarith+
  ultimately show ?thesis by (intro exI [of _ "nat e"]) simp
qed

lemma getNearestPowerOf2_power:
  assumes "8 \<le> k" "k \<le> 14"
  shows "getNearestPowerOf2 (2 ^ k) = 2 ^ k"
proof -
  have "log 2 ((2::real) ^ k) = real k" by (rule log_pow_cancel) simp_all
  then have r: "real_of_int (round (log 2 ((2::real) ^ k))) = real k" by simp
  have pos: "0 < (2::real) ^ k" by simp
  have "getNearestPowerOf2 (2 ^ k) = max 256 (min 16384 (2 powr real k))"
    using getNearestPowerOf2_pos [OF pos] by (simp only: r)
  also have "(2::real) powr real k = 2 ^ k" by (simp add: powr_realpow)
  also have "max 256 (min 16384 ((2::real) ^ k)) = 2 ^ k"
  proof -
    have "(2::real) ^ 8 \<le> 2 ^ k" "(2::real) ^ k \<le> 2 ^ 14"
      using assms by (simp_all only: power_increasing_iff one_less_numeral_iff semiring_norm)
    then show ?thesis by simp
  qed
  finally show ?thesis .
qed

section \<open>The scroll update: where the new column lands and what is shifted\<close>

text \<open>
  C1. The specification places the newest analyser sample in the rightmost column of the
  heights buffer, at \<open>insertBase = vertexCount - (frequencySamples + 1)\<close>, and the comment
  above the insertion loop says the same (``add new data on the right (last column)'').
  The loop starts at \<open>end_val - start_val\<close>, which is one column further left. With
  \<open>frequencySamples = 1\<close> and three columns (\<open>nVertices = 6\<close>), one update of the zeroed
  buffer with the sample \<open>[5]\<close> writes the sample and its closing vertex at indices 2
  and 3; the rightmost column, indices 4 and 5, stays 0.
\<close>

theorem updateSpectrogramData_rightmost_column_example:
  "updateSpectrogramData [5] [0] [0, 0, 0, 0, 0, 0] 1 6 = Inr ([5], [0, 0, 5, 5, 0, 0])"
  by (simp add: updateSpectrogramData_def newUint8Array_def setFrom_def
        getByteFrequencyData_def copyWithin_def relativeIndex_def insertLoop.simps
        writeIndex_def readIndex_def orZero_def)

text \<open>
  C2. One update shifts the heights buffer left by exactly one column before it inserts:
  with \<open>stride = frequencySamples + 1\<close>, the buffer handed to the insertion loop is the
  result of \<open>copyWithin(0, stride, nVertices + 1)\<close>, and every index \<open>k\<close> below
  \<open>nVertices - stride\<close> of it holds what was at \<open>k + stride\<close> before the update. The copy
  reads the buffer as it was before the call, whatever the overlap of source and
  destination, and neither the copy nor the whole update changes the length of the
  buffer; below the inserted column the shifted values are still there when the update
  returns. The buffer has \<open>nVertices\<close> entries and the data array has room for the sample.
\<close>

theorem updateSpectrogramData_shifts_one_column:
  assumes "0 \<le> fs" and "nat fs \<le> length d" and "int (length hs) = nV"
  shows "\<exists>d' hs'.
           updateSpectrogramData a d hs fs nV = Inr (d', hs') \<and>
           hs' = insertLoop d' fs (nV - (fs + 1) - (fs + 1)) 0
                   (copyWithin hs 0 (fs + 1) (nV + 1)) \<and>
           (\<forall>k. int k < nV - (fs + 1) \<longrightarrow>
                copyWithin hs 0 (fs + 1) (nV + 1) ! k = hs ! (k + nat (fs + 1))) \<and>
           length (copyWithin hs 0 (fs + 1) (nV + 1)) = length hs \<and>
           (\<forall>k. int k < nV - (fs + 1) - (fs + 1) \<longrightarrow> hs' ! k = hs ! (k + nat (fs + 1))) \<and>
           length hs' = length hs"
proof -
  let ?d' = "getByteFrequencyData a (replicate (nat fs) 0) @ drop (nat fs) d"
  let ?shifted = "copyWithin hs 0 (fs + 1) (nV + 1)"
  let ?hs' = "insertLoop ?d' fs (nV - (fs + 1) - (fs + 1)) 0 ?shifted"
  have run: "updateSpectrogramData a d hs fs nV = Inr (?d', ?hs')"
    using assms(1,2) by (rule updateSpectrogramData_result)
  have shift: "\<forall>k. int k < nV - (fs + 1) \<longrightarrow> ?shifted ! k = hs ! (k + nat (fs + 1))"
  proof (intro allI impI)
    fix k assume "int k < nV - (fs + 1)"
    then show "?shifted ! k = hs ! (k + nat (fs + 1))"
      using assms by (intro copyWithin_shift) linarith+
  qed
  have kept: "\<forall>k. int k < nV - (fs + 1) - (fs + 1) \<longrightarrow> ?hs' ! k = hs ! (k + nat (fs + 1))"
  proof (intro allI impI)
    fix k assume "int k < nV - (fs + 1) - (fs + 1)"
    then show "?hs' ! k = hs ! (k + nat (fs + 1))"
      using assms(1,3) by (intro tick_shifted)
  qed
  show ?thesis
    using run shift kept by (intro exI [of _ ?d'] exI [of _ ?hs']) simp
qed

theorem updateSpectrogramData_shifts_one_column_witness:
  "(0::int) \<le> 2 \<and> nat 2 \<le> length [0, 0 :: uint8] \<and>
   int (length [1, 2, 3, 4, 5, 6, 7, 8, 9 :: uint8]) = 9 \<and>
   (\<exists>d' hs'.
      updateSpectrogramData [5, 7] [0, 0] [1, 2, 3, 4, 5, 6, 7, 8, 9] 2 9 = Inr (d', hs') \<and>
      hs' = insertLoop d' 2 (9 - (2 + 1) - (2 + 1)) 0
              (copyWithin [1, 2, 3, 4, 5, 6, 7, 8, 9] 0 (2 + 1) (9 + 1)) \<and>
      (\<forall>k. int k < 9 - (2 + 1) \<longrightarrow>
           copyWithin [1, 2, 3, 4, 5, 6, 7, 8, 9 :: uint8] 0 (2 + 1) (9 + 1) ! k
           = [1, 2, 3, 4, 5, 6, 7, 8, 9] ! (k + nat (2 + 1))) \<and>
      length (copyWithin [1, 2, 3, 4, 5, 6, 7, 8, 9 :: uint8] 0 (2 + 1) (9 + 1))
        = length [1, 2, 3, 4, 5, 6, 7, 8, 9 :: uint8] \<and>
      (\<forall>k. int k < 9 - (2 + 1) - (2 + 1) \<longrightarrow>
           hs' ! k = [1, 2, 3, 4, 5, 6, 7, 8, 9] ! (k + nat (2 + 1))) \<and>
      length hs' = length [1, 2, 3, 4, 5, 6, 7, 8, 9 :: uint8]) \<and>
   updateSpectrogramData [5, 7] [0, 0] [1, 2, 3, 4, 5, 6, 7, 8, 9] 2 9
     = Inr ([5, 7], [4, 5, 6, 5, 7, 7, 7, 8, 9])"
proof -
  have h1: "(0::int) \<le> 2" by simp
  have h2: "nat 2 \<le> length [0, 0 :: uint8]" by simp
  have h3: "int (length [1, 2, 3, 4, 5, 6, 7, 8, 9 :: uint8]) = 9" by simp
  have run: "updateSpectrogramData [5, 7] [0, 0] [1, 2, 3, 4, 5, 6, 7, 8, 9] 2 9
               = Inr ([5, 7], [4, 5, 6, 5, 7, 7, 7, 8, 9])"
    by (simp add: updateSpectrogramData_def newUint8Array_def setFrom_def
          getByteFrequencyData_def copyWithin_def relativeIndex_def insertLoop.simps
          writeIndex_def readIndex_def orZero_def)
  show ?thesis
    by (intro conjI h1 h2 h3 run updateSpectrogramData_shifts_one_column [OF h1 h2 h3])
qed

lemma two_columns:
  fixes fs ts :: int
  assumes "0 < fs" and "0 < ts"
  shows "2 * (fs + 1) \<le> (fs + 1) * (ts + 1)" and "0 \<le> (fs + 1) * (ts + 1)"
proof -
  have "(fs + 1) * 2 \<le> (fs + 1) * (ts + 1)"
    by (rule mult_left_mono) (use assms in simp_all)
  then show le: "2 * (fs + 1) \<le> (fs + 1) * (ts + 1)" by (simp add: mult.commute)
  have "0 \<le> 2 * (fs + 1)" using assms by simp
  then show "0 \<le> (fs + 1) * (ts + 1)" using le by (rule order_trans)
qed

text \<open>
  C3. No update ever writes an index of the final time column
  \<open>[nVertices - (frequencySamples + 1), nVertices - 1]\<close>. For valid parameters the geometry
  build succeeds, and on every buffer of \<open>nVertices\<close> entries one update leaves each entry
  of the final column as it was: the shift writes below it, and the insertion writes the
  sample at \<open>nVertices - 2 * (frequencySamples + 1) + j\<close>, the second-to-last column.
  Hence, started on the zeroed buffer of the fresh geometry with a fresh data array, the
  frame loop returns after any sequence of analyser readings with the final column still
  all zeros.
\<close>

theorem rightmost_column_never_written:
  assumes "valid (validateParameters (asNumbers params))"
  shows "\<exists>g d.
           generateVertices params = Inr g \<and>
           newUint8Array (frequencySamples params) = Inr d \<and>
           (\<forall>a d0 hs. nat (frequencySamples params) \<le> length d0 \<and>
                      int (length hs) = nVertices g \<longrightarrow>
              (\<exists>d' hs'.
                 updateSpectrogramData a d0 hs (frequencySamples params) (nVertices g)
                   = Inr (d', hs') \<and>
                 (\<forall>k. nVertices g - (frequencySamples params + 1) \<le> int k \<and>
                      int k < nVertices g \<longrightarrow> hs' ! k = hs ! k) \<and>
                 (\<forall>j. 0 \<le> j \<and> j < frequencySamples params \<longrightarrow>
                      hs' ! nat (nVertices g - 2 * (frequencySamples params + 1) + j)
                      = orZero (readIndex d' j)))) \<and>
           (\<forall>frames. \<exists>d' hs'.
              animate frames d (heights g) (frequencySamples params) (nVertices g)
                = Inr (d', hs') \<and>
              (\<forall>k. nVertices g - (frequencySamples params + 1) \<le> int k \<and>
                   int k < nVertices g \<longrightarrow> hs' ! k = 0))"
proof -
  define fs where "fs = frequencySamples params"
  define ts where "ts = timeSamples params"
  define nV where "nV = (fs + 1) * (ts + 1)"
  have pos: "0 < fs" "0 < ts"
    using assms by (simp_all add: validateParameters_valid fs_def ts_def)
  have nV: "2 * (fs + 1) \<le> nV" "0 \<le> nV"
    unfolding nV_def using two_columns [OF pos] by simp_all
  define g where "g = \<lparr>vertices = concat (map (\<lambda>i. concat (map (\<lambda>j.
                   [real_of_int i * (xsize params / real_of_int (timeSamples params))
                      - xsize params / 2,
                    calculateLogarithmicY j (frequencySamples params) (ysize params), 0])
                 [0..frequencySamples params])) [0..timeSamples params]),
              heights = replicate (nat nV) (0::uint8),
              nVertices = nV\<rparr>"
  have gen: "generateVertices params = Inr g"
    using generateVertices_result [of params] nV(2)
    unfolding g_def nV_def fs_def ts_def by simp
  have g_simps: "nVertices g = nV" "heights g = replicate (nat nV) 0"
    by (simp_all add: g_def)
  define d where "d = replicate (nat fs) (0::uint8)"
  have data: "newUint8Array fs = Inr d"
    using pos by (simp add: newUint8Array_def d_def)
  have tick: "\<exists>d' hs'. updateSpectrogramData a d0 hs fs nV = Inr (d', hs') \<and>
                 (\<forall>k. nV - (fs + 1) \<le> int k \<and> int k < nV \<longrightarrow> hs' ! k = hs ! k) \<and>
                 (\<forall>j. 0 \<le> j \<and> j < fs \<longrightarrow>
                      hs' ! nat (nV - 2 * (fs + 1) + j) = orZero (readIndex d' j))"
    if len: "nat fs \<le> length d0" "int (length hs) = nV" for a d0 hs
  proof -
    let ?d' = "getByteFrequencyData a (replicate (nat fs) 0) @ drop (nat fs) d0"
    let ?ins = "nV - (fs + 1) - (fs + 1)"
    let ?hs' = "insertLoop ?d' fs ?ins 0 (copyWithin hs 0 (fs + 1) (nV + 1))"
    have fs0: "0 \<le> fs" using pos by simp
    have run: "updateSpectrogramData a d0 hs fs nV = Inr (?d', ?hs')"
      using fs0 len(1) by (rule updateSpectrogramData_result)
    have keep: "\<forall>k. nV - (fs + 1) \<le> int k \<and> int k < nV \<longrightarrow> ?hs' ! k = hs ! k"
    proof (intro allI impI)
      fix k assume "nV - (fs + 1) \<le> int k \<and> int k < nV"
      then show "?hs' ! k = hs ! k"
        using tick_last_column [of fs hs nV k ?d'] fs0 len(2) by blast
    qed
    have ins: "nV - 2 * (fs + 1) = ?ins" by simp
    have put: "\<forall>j. 0 \<le> j \<and> j < fs \<longrightarrow> ?hs' ! nat (nV - 2 * (fs + 1) + j) = orZero (readIndex ?d' j)"
    proof (intro allI impI)
      fix j assume j: "0 \<le> j \<and> j < fs"
      have "?hs' ! nat (?ins + j) = orZero (readIndex ?d' j)"
        using j nV len(2) by (intro insertLoop_sample) simp_all
      then show "?hs' ! nat (nV - 2 * (fs + 1) + j) = orZero (readIndex ?d' j)"
        by (simp only: ins)
    qed
    show ?thesis
      using run keep put by (intro exI [of _ ?d'] exI [of _ ?hs']) (simp only: simp_thms)
  qed
  have loop: "\<exists>d' hs'. animate frames d (heights g) fs nV = Inr (d', hs') \<and>
              (\<forall>k. nV - (fs + 1) \<le> int k \<and> int k < nV \<longrightarrow> hs' ! k = 0)" for frames
  proof -
    have "0 \<le> fs" "nat fs \<le> length d" "int (length (heights g)) = nV"
      using pos nV by (simp_all add: d_def g_simps)
    then obtain d' hs' where run: "animate frames d (heights g) fs nV = Inr (d', hs')"
        and keep: "\<forall>k. nV - (fs + 1) \<le> int k \<and> int k < nV \<longrightarrow> hs' ! k = heights g ! k"
      using animate_last_column [of fs d "heights g" nV frames] by blast
    have "\<forall>k. nV - (fs + 1) \<le> int k \<and> int k < nV \<longrightarrow> hs' ! k = 0"
    proof (intro allI impI)
      fix k assume k: "nV - (fs + 1) \<le> int k \<and> int k < nV"
      then have "k < nat nV" by linarith
      then show "hs' ! k = 0" using keep k by (simp add: g_simps)
    qed
    then show ?thesis using run by blast
  qed
  show ?thesis
    using gen data tick loop
    unfolding fs_def [symmetric] g_simps
    by (intro exI [of _ g] exI [of _ d]) (simp only: g_simps simp_thms, blast)
qed

theorem rightmost_column_never_written_witness:
  "valid (validateParameters (asNumbers \<lparr>timeSamples = 2, frequencySamples = 1, xsize = 4, ysize = 3\<rparr>)) \<and>
   (\<forall>frames. \<exists>d' hs'.
      animate frames [0] [0, 0, 0, 0, 0, 0] 1 6 = Inr (d', hs') \<and> hs' ! 4 = 0 \<and> hs' ! 5 = 0) \<and>
   animate [[5], [9]] [0] [0, 0, 0, 0, 0, 0] 1 6 = Inr ([9], [5, 5, 9, 9, 0, 0])"
proof -
  let ?P = "\<lparr>timeSamples = 2, frequencySamples = 1, xsize = 4, ysize = 3\<rparr>"
  have h: "valid (validateParameters (asNumbers ?P))"
    by (simp add: validateParameters_def asNumbers_def jsLessEq_def)
  obtain g d where g: "generateVertices ?P = Inr g"
      and d: "newUint8Array (frequencySamples ?P) = Inr d"
      and loop: "\<forall>frames. \<exists>d' hs'.
              animate frames d (heights g) (frequencySamples ?P) (nVertices g) = Inr (d', hs') \<and>
              (\<forall>k. nVertices g - (frequencySamples ?P + 1) \<le> int k \<and>
                   int k < nVertices g \<longrightarrow> hs' ! k = 0)"
    using rightmost_column_never_written [OF h] by blast
  have six: "replicate (nat 6) (0::uint8) = [0, 0, 0, 0, 0, 0]"
    by (simp add: eval_nat_numeral)
  have gv: "heights g = [0, 0, 0, 0, 0, 0]" "nVertices g = 6"
    using g generateVertices_result [of ?P] six by auto
  have dv: "d = [0]"
    using d by (simp add: newUint8Array_def)
  have "\<exists>d' hs'. animate frames [0] [0, 0, 0, 0, 0, 0] 1 6 = Inr (d', hs') \<and>
                  hs' ! 4 = 0 \<and> hs' ! 5 = 0" for frames
  proof -
    obtain d' hs' where run: "animate frames [0] [0, 0, 0, 0, 0, 0] 1 6 = Inr (d', hs')"
        and z: "\<forall>k. 6 - (1 + 1) \<le> int k \<and> int k < 6 \<longrightarrow> hs' ! k = 0"
      using loop [rule_format, of frames] gv dv by auto
    have "hs' ! 4 = 0" "hs' ! 5 = 0"
      using z [rule_format, of 4] z [rule_format, of 5] by simp_all
    then show ?thesis using run by blast
  qed
  moreover have "animate [[5], [9]] [0] [0, 0, 0, 0, 0, 0] 1 6 = Inr ([9], [5, 5, 9, 9, 0, 0])"
    by (simp add: updateSpectrogramData_def newUint8Array_def setFrom_def
          getByteFrequencyData_def copyWithin_def relativeIndex_def insertLoop.simps
          writeIndex_def readIndex_def orZero_def)
  ultimately show ?thesis using h by blast
qed

section \<open>The geometry build\<close>

text \<open>
  C4. For valid parameters (all four of \<open>timeSamples\<close>, \<open>frequencySamples\<close>, \<open>xsize\<close>,
  \<open>ysize\<close> positive) the vertex generation succeeds, its vertex count equals
  \<open>(frequencySamples + 1) * (timeSamples + 1)\<close>, which is also what
  \<open>calculateVertexCount\<close> returns, the heights buffer has exactly that many entries, and
  every entry of the fresh buffer is 0.
\<close>

theorem generateVertices_vertexCount_zeroed:
  assumes "valid (validateParameters (asNumbers params))"
  shows "\<exists>g. generateVertices params = Inr g \<and>
             nVertices g = (frequencySamples params + 1) * (timeSamples params + 1) \<and>
             calculateVertexCount (frequencySamples params) (timeSamples params) = nVertices g \<and>
             int (length (heights g)) = nVertices g \<and>
             (\<forall>k. k < length (heights g) \<longrightarrow> heights g ! k = 0)"
proof -
  have pos: "0 < frequencySamples params" "0 < timeSamples params"
    using assms by (simp_all add: validateParameters_valid)
  then have nV: "0 \<le> (frequencySamples params + 1) * (timeSamples params + 1)"
    by simp
  show ?thesis
    using nV by (simp add: generateVertices_result [OF nV] calculateVertexCount_def)
qed

theorem generateVertices_vertexCount_zeroed_witness:
  "valid (validateParameters (asNumbers \<lparr>timeSamples = 2, frequencySamples = 1, xsize = 4, ysize = 3\<rparr>)) \<and>
   (\<exists>g. generateVertices \<lparr>timeSamples = 2, frequencySamples = 1, xsize = 4, ysize = 3\<rparr> = Inr g \<and>
        nVertices g = 6 \<and> int (length (heights g)) = 6 \<and> heights g = [0, 0, 0, 0, 0, 0])"
proof -
  have h: "valid (validateParameters (asNumbers \<lparr>timeSamples = 2, frequencySamples = 1, xsize = 4, ysize = 3\<rparr>))"
    by (simp add: validateParameters_def asNumbers_def jsLessEq_def)
  obtain g where g: "generateVertices \<lparr>timeSamples = 2, frequencySamples = 1, xsize = 4, ysize = 3\<rparr> = Inr g"
      "nVertices g = 6" "int (length (heights g)) = 6" "\<forall>k. k < length (heights g) \<longrightarrow> heights g ! k = 0"
    using generateVertices_vertexCount_zeroed [OF h] by auto
  have "length (heights g) = 6" using g(3) by simp
  then have "heights g = [0, 0, 0, 0, 0, 0]"
    using g(4) by (intro nth_equalityI) (simp_all add: nth_Cons')
  then show ?thesis using h g by blast
qed

text \<open>
  C6. For valid parameters, time index \<open>i\<close> in \<open>0..timeSamples\<close> and frequency index \<open>j\<close>
  in \<open>0..frequencySamples\<close>, the vertex of \<open>(i, j)\<close> occupies the three consecutive
  entries of \<open>vertices\<close> starting at \<open>3 * (i * (frequencySamples + 1) + j)\<close>, and they are
  \<open>x = i * (xsize / timeSamples) - xsize / 2\<close>,
  \<open>y = - e\<^sup>p + ysize / 2 + 1\<close> with \<open>p = ((frequencySamples - j) / frequencySamples) * ln ysize\<close>,
  and \<open>z = 0\<close>. The arithmetic is that of the real numbers.
\<close>

theorem generateVertices_coordinates:
  assumes "valid (validateParameters (asNumbers params))"
    and "0 \<le> i" and "i \<le> timeSamples params"
    and "0 \<le> j" and "j \<le> frequencySamples params"
  shows "\<exists>g. generateVertices params = Inr g \<and>
             vertices g ! (3 * nat (i * (frequencySamples params + 1) + j))
               = real_of_int i * (xsize params / real_of_int (timeSamples params))
                   - xsize params / 2 \<and>
             vertices g ! (3 * nat (i * (frequencySamples params + 1) + j) + 1)
               = - exp ((real_of_int (frequencySamples params - j)
                          / real_of_int (frequencySamples params)) * ln (ysize params))
                   + ysize params / 2 + 1 \<and>
             vertices g ! (3 * nat (i * (frequencySamples params + 1) + j) + 2) = 0"
proof -
  have pos: "0 < frequencySamples params" "0 < timeSamples params"
    using assms(1) by (simp_all add: validateParameters_valid)
  then have nV: "0 \<le> (frequencySamples params + 1) * (timeSamples params + 1)"
    by simp
  let ?x = "\<lambda>i. real_of_int i * (xsize params / real_of_int (timeSamples params)) - xsize params / 2"
  let ?y = "\<lambda>j. calculateLogarithmicY j (frequencySamples params) (ysize params)"
  let ?vs = "concat (map (\<lambda>i. concat (map (\<lambda>j. [?x i, ?y j, 0]) [0..frequencySamples params]))
               [0..timeSamples params])"
  have at: "?vs ! (3 * nat (i * (frequencySamples params + 1) + j) + b) = [?x i, ?y j, 0] ! b"
    if "b < 3" for b
    using assms(2-5) that by (rule vertex_position)
  have "?vs ! (3 * nat (i * (frequencySamples params + 1) + j)) = ?x i"
    using at [of 0] by simp
  moreover have "?vs ! (3 * nat (i * (frequencySamples params + 1) + j) + 1) = ?y j"
    using at [of 1] by simp
  moreover have "?vs ! (3 * nat (i * (frequencySamples params + 1) + j) + 2) = 0"
    using at [of 2] by simp
  ultimately show ?thesis
    by (simp add: generateVertices_result [OF nV] calculateLogarithmicY_exp)
qed

theorem generateVertices_coordinates_witness:
  "valid (validateParameters (asNumbers \<lparr>timeSamples = 2, frequencySamples = 1, xsize = 4, ysize = 3\<rparr>)) \<and>
   (0::int) \<le> 1 \<and> (1::int) \<le> 2 \<and> (0::int) \<le> 0 \<and> (0::int) \<le> 1 \<and>
   (\<exists>g. generateVertices \<lparr>timeSamples = 2, frequencySamples = 1, xsize = 4, ysize = 3\<rparr> = Inr g \<and>
        vertices g ! 6 = 0 \<and> vertices g ! 7 = - 1 / 2 \<and> vertices g ! 8 = 0)"
proof -
  have h: "valid (validateParameters (asNumbers \<lparr>timeSamples = 2, frequencySamples = 1, xsize = 4, ysize = 3\<rparr>))"
    by (simp add: validateParameters_def asNumbers_def jsLessEq_def)
  show ?thesis
    using h generateVertices_coordinates
            [of "\<lparr>timeSamples = 2, frequencySamples = 1, xsize = 4, ysize = 3\<rparr>" 1 0, OF h]
    by simp
qed

text \<open>
  C7. The index buffer consists of exactly two triangles per quad and nothing else: it
  has \<open>6 * timeSamples * frequencySamples\<close> entries, and for every quad \<open>(i, j)\<close> with
  \<open>0 \<le> i < timeSamples\<close> and \<open>0 \<le> j < frequencySamples\<close> the six entries starting at
  \<open>6 * (i * frequencySamples + j)\<close> are \<open>a, b, d\<close> followed by \<open>b, c, d\<close>, where
  \<open>a = i\<cdot>(F+1) + (j+1)\<close>, \<open>b = i\<cdot>(F+1) + j\<close>, \<open>c = (i+1)\<cdot>(F+1) + j\<close>,
  \<open>d = (i+1)\<cdot>(F+1) + (j+1)\<close> and \<open>F = frequencySamples\<close>. These blocks cover the
  whole buffer.
\<close>

theorem generateIndices_two_triangles_per_quad:
  "length (generateIndices ts fs) = 6 * (nat ts * nat fs) \<and>
   (\<forall>i j. 0 \<le> i \<and> i < ts \<and> 0 \<le> j \<and> j < fs \<longrightarrow>
      map (\<lambda>b. generateIndices ts fs ! (6 * (nat i * nat fs + nat j) + b)) [0, 1, 2, 3, 4, 5]
      = [i * (fs + 1) + (j + 1), i * (fs + 1) + j, (i + 1) * (fs + 1) + (j + 1),
         i * (fs + 1) + j, (i + 1) * (fs + 1) + j, (i + 1) * (fs + 1) + (j + 1)])"
proof (intro conjI allI impI)
  show "length (generateIndices ts fs) = 6 * (nat ts * nat fs)"
    by (rule length_generateIndices)
next
  fix i j assume "0 \<le> i \<and> i < ts \<and> 0 \<le> j \<and> j < fs"
  then have q: "generateIndices ts fs ! (6 * (nat i * nat fs + nat j) + b) =
         [i * (fs + 1) + (j + 1), i * (fs + 1) + j, (i + 1) * (fs + 1) + (j + 1),
          i * (fs + 1) + j, (i + 1) * (fs + 1) + j, (i + 1) * (fs + 1) + (j + 1)] ! b"
    if "b < 6" for b
    using that by (intro quad_position) simp_all
  show "map (\<lambda>b. generateIndices ts fs ! (6 * (nat i * nat fs + nat j) + b)) [0, 1, 2, 3, 4, 5]
      = [i * (fs + 1) + (j + 1), i * (fs + 1) + j, (i + 1) * (fs + 1) + (j + 1),
         i * (fs + 1) + j, (i + 1) * (fs + 1) + j, (i + 1) * (fs + 1) + (j + 1)]"
    using q [of 0] q [of 1] q [of 2] q [of 3] q [of 4] q [of 5] by simp
qed

theorem generateIndices_two_triangles_per_quad_witness:
  "length (generateIndices 2 2) = 24 \<and>
   (0::int) \<le> 1 \<and> (1::int) < 2 \<and> (0::int) \<le> 1 \<and> (1::int) < 2 \<and>
   map (\<lambda>b. generateIndices 2 2 ! (18 + b)) [0, 1, 2, 3, 4, 5] = [5, 4, 8, 4, 7, 8]"
proof -
  have h: "(0::int) \<le> 1 \<and> (1::int) < 2 \<and> (0::int) \<le> 1 \<and> (1::int) < 2" by simp
  have len: "length (generateIndices 2 2) = 6 * (nat 2 * nat 2)"
    using generateIndices_two_triangles_per_quad [of 2 2] by (rule conjunct1)
  have quad: "map (\<lambda>b. generateIndices 2 2 ! (6 * (nat 1 * nat 2 + nat 1) + b)) [0, 1, 2, 3, 4, 5]
      = [1 * (2 + 1) + (1 + 1), 1 * (2 + 1) + 1, (1 + 1) * (2 + 1) + (1 + 1),
         1 * (2 + 1) + 1, (1 + 1) * (2 + 1) + 1, (1 + 1) * (2 + 1) + (1 + 1)]"
    using generateIndices_two_triangles_per_quad [of 2 2, THEN conjunct2, rule_format, of 1 1] h
    by (simp only:)
  show ?thesis using len quad h by simp
qed

section \<open>The FFT window size\<close>

text \<open>
  C5. For every positive \<open>frequencySamples\<close> the FFT window size is
  \<open>2 ^ round (log\<^sub>2 (4 * frequencySamples))\<close> clamped to \<open>[2\<^sup>8, 2\<^sup>1\<^sup>4]\<close>; for a
  non-positive argument the guard returns the lower bound \<open>2\<^sup>8\<close>. The result is always a
  power of two with exponent between 8 and 14. In particular 256 samples give 1024,
  64 give 256 and 512 give 2048. The logarithm and the power are those of the real
  numbers.
\<close>

theorem calculateFFTSize_clamped_power_of_two:
  "(0 < fs \<longrightarrow>
      calculateFFTSize fs
      = max (2 ^ 8) (min (2 ^ 14) (2 powr real_of_int (round (log 2 (4 * real_of_int fs)))))) \<and>
   (fs \<le> 0 \<longrightarrow> calculateFFTSize fs = 2 ^ 8) \<and>
   (\<exists>k. 8 \<le> k \<and> k \<le> 14 \<and> calculateFFTSize fs = 2 ^ k) \<and>
   calculateFFTSize 256 = 1024 \<and> calculateFFTSize 64 = 256 \<and> calculateFFTSize 512 = 2048"
proof (intro conjI impI)
  assume "0 < fs"
  then have "0 < 4 * real_of_int fs" by simp
  then show "calculateFFTSize fs
      = max (2 ^ 8) (min (2 ^ 14) (2 powr real_of_int (round (log 2 (4 * real_of_int fs)))))"
    by (simp add: calculateFFTSize_def FFT_MULTIPLIER_def getNearestPowerOf2_pos)
next
  assume "fs \<le> 0"
  then have "4 * real_of_int fs \<le> 0" by simp
  then show "calculateFFTSize fs = 2 ^ 8"
    by (simp add: calculateFFTSize_def FFT_MULTIPLIER_def getNearestPowerOf2_def MIN_FFT_SIZE_def)
next
  show "\<exists>k. 8 \<le> k \<and> k \<le> 14 \<and> calculateFFTSize fs = 2 ^ k"
    unfolding calculateFFTSize_def by (rule getNearestPowerOf2_exponent)
next
  show "calculateFFTSize 256 = 1024"
    using getNearestPowerOf2_power [of 10] by (simp add: calculateFFTSize_def FFT_MULTIPLIER_def)
next
  show "calculateFFTSize 64 = 256"
    using getNearestPowerOf2_power [of 8] by (simp add: calculateFFTSize_def FFT_MULTIPLIER_def)
next
  show "calculateFFTSize 512 = 2048"
    using getNearestPowerOf2_power [of 11] by (simp add: calculateFFTSize_def FFT_MULTIPLIER_def)
qed

theorem calculateFFTSize_clamped_power_of_two_witness:
  "(0::int) < 128 \<and> calculateFFTSize 128 = 512 \<and>
   (0::int) \<le> 0 \<and> calculateFFTSize 0 = 256"
proof -
  have h: "(0::int) < 128" and h0: "(0::int) \<le> 0" by simp_all
  have "log 2 ((2::real) ^ 9) = real 9" by (rule log_pow_cancel) simp_all
  then have r: "real_of_int (round (log 2 (4 * real_of_int 128))) = 9" by simp
  have "calculateFFTSize 128
     = max (2 ^ 8) (min (2 ^ 14) (2 powr real_of_int (round (log 2 (4 * real_of_int 128)))))"
    using calculateFFTSize_clamped_power_of_two [of 128, THEN conjunct1] h by (rule mp)
  then have "calculateFFTSize 128 = 512" by (simp only: r) simp
  moreover have "calculateFFTSize 0 = 2 ^ 8"
    using calculateFFTSize_clamped_power_of_two [of 0, THEN conjunct2, THEN conjunct1] h0
    by (rule mp)
  ultimately show ?thesis by simp
qed

section \<open>The colour of near-zero intensities\<close>

text \<open>
  C9. For each of the eleven colour schemes and every displacement whose intensity
  \<open>vDisplacement / 255\<close> is below 0.01, intensity 0 included, the fragment colour is the
  fixed dark tint of the scheme, the same for all such intensities, and it differs from
  the scheme's gradient evaluated at that intensity. The colour is a function of the
  scheme and the displacement alone.
\<close>

theorem fragmentMain_dark_tint:
  assumes "vDisplacement / 255 < 0.01"
  shows "fragmentMain (getColorSchemeValue scheme) vDisplacement
         = (case scheme of
              GreenRed \<Rightarrow> (0, 0.1, 0)
            | PurpleYellow \<Rightarrow> (0.05, 0, 0.1)
            | BlueCyan \<Rightarrow> (0, 0, 0.1)
            | Purple \<Rightarrow> (0.08, 0.07, 0.15)
            | RedYellow \<Rightarrow> (0.1, 0, 0)
            | BlueMagenta \<Rightarrow> (0, 0, 0.1)
            | Rainbow \<Rightarrow> (0.05, 0, 0)
            | Grayscale \<Rightarrow> (0.05, 0.05, 0.05)
            | OrangeRed \<Rightarrow> (0.1, 0.05, 0)
            | CyanBlue \<Rightarrow> (0, 0.1, 0.1)
            | YellowGreen \<Rightarrow> (0.1, 0.1, 0)) \<and>
         fragmentMain (getColorSchemeValue scheme) vDisplacement
         \<noteq> getColor (getColorSchemeValue scheme) (vDisplacement / 255)"
proof -
  have tint: "fragmentMain (getColorSchemeValue scheme) vDisplacement
         = (case scheme of
              GreenRed \<Rightarrow> (0, 0.1, 0)
            | PurpleYellow \<Rightarrow> (0.05, 0, 0.1)
            | BlueCyan \<Rightarrow> (0, 0, 0.1)
            | Purple \<Rightarrow> (0.08, 0.07, 0.15)
            | RedYellow \<Rightarrow> (0.1, 0, 0)
            | BlueMagenta \<Rightarrow> (0, 0, 0.1)
            | Rainbow \<Rightarrow> (0.05, 0, 0)
            | Grayscale \<Rightarrow> (0.05, 0.05, 0.05)
            | OrangeRed \<Rightarrow> (0.1, 0.05, 0)
            | CyanBlue \<Rightarrow> (0, 0.1, 0.1)
            | YellowGreen \<Rightarrow> (0.1, 0.1, 0))"
    using assms
    by (cases scheme) (simp_all add: fragmentMain_def getColorSchemeValue_def Let_def)
  have i: "vDisplacement < 2.55" using assms by simp
  have "(case scheme of
              GreenRed \<Rightarrow> (0, 0.1, 0)
            | PurpleYellow \<Rightarrow> (0.05, 0, 0.1)
            | BlueCyan \<Rightarrow> (0, 0, 0.1)
            | Purple \<Rightarrow> (0.08, 0.07, 0.15)
            | RedYellow \<Rightarrow> (0.1, 0, 0)
            | BlueMagenta \<Rightarrow> (0, 0, 0.1)
            | Rainbow \<Rightarrow> (0.05, 0, 0)
            | Grayscale \<Rightarrow> (0.05, 0.05, 0.05)
            | OrangeRed \<Rightarrow> (0.1, 0.05, 0)
            | CyanBlue \<Rightarrow> (0, 0.1, 0.1)
            | YellowGreen \<Rightarrow> (0.1, 0.1, 0))
        \<noteq> getColor (getColorSchemeValue scheme) (vDisplacement / 255)"
  proof (cases scheme)
    case Purple
    show ?thesis
    proof
      assume eq: "(case scheme of
              GreenRed \<Rightarrow> (0, 0.1, 0)
            | PurpleYellow \<Rightarrow> (0.05, 0, 0.1)
            | BlueCyan \<Rightarrow> (0, 0, 0.1)
            | Purple \<Rightarrow> (0.08, 0.07, 0.15)
            | RedYellow \<Rightarrow> (0.1, 0, 0)
            | BlueMagenta \<Rightarrow> (0, 0, 0.1)
            | Rainbow \<Rightarrow> (0.05, 0, 0)
            | Grayscale \<Rightarrow> (0.05, 0.05, 0.05)
            | OrangeRed \<Rightarrow> (0.1, 0.05, 0)
            | CyanBlue \<Rightarrow> (0, 0.1, 0.1)
            | YellowGreen \<Rightarrow> (0.1, 0.1, 0))
        = getColor (getColorSchemeValue scheme) (vDisplacement / 255)"
      define m where "m = 0.3 + vDisplacement / 255 * 0.7"
      have "0.08 = 0.2627 * m" "0.07 = 0.2471 * m"
        using eq Purple by (simp_all add: getColor_def getColorSchemeValue_def Let_def m_def)
      then show False by simp
    qed
  qed (use i in \<open>simp_all add: getColor_def getColorSchemeValue_def Let_def\<close>)
  then show ?thesis using tint by simp
qed

theorem fragmentMain_dark_tint_witness:
  "(2::real) / 255 < 0.01 \<and>
   fragmentMain (getColorSchemeValue Grayscale) 2 = (0.05, 0.05, 0.05) \<and>
   fragmentMain (getColorSchemeValue Grayscale) 2 \<noteq> getColor (getColorSchemeValue Grayscale) (2 / 255)"
proof -
  have h: "(2::real) / 255 < 0.01" by simp
  have tint: "fragmentMain (getColorSchemeValue Grayscale) 2 = (0.05, 0.05, 0.05)"
    using fragmentMain_dark_tint [OF h, of Grayscale, THEN conjunct1] by simp
  have differs: "fragmentMain (getColorSchemeValue Grayscale) 2
                 \<noteq> getColor (getColorSchemeValue Grayscale) (2 / 255)"
    using fragmentMain_dark_tint [OF h, of Grayscale] by (rule conjunct2)
  show ?thesis using h tint differs by blast
qed

section \<open>Audio teardown\<close>

lemma cleanupAudio_returns:
  "\<exists>source' ctx'. cleanupAudio browser source audioContext = Inr (source', ctx')"
  by (simp add: cleanupAudio_def Let_def)

lemma stopMicrophone_returns:
  "\<exists>stream' ctx'. stopMicrophone browser stream audioContext = Inr (stream', ctx')"
  by (simp add: stopMicrophone_def Let_def)

lemma cleanupAudio_releases:
  assumes "cleanupAudio browser source audioContext = Inr (source', ctx')"
    and "wellBehaved browser \<or> (sourceReleased source \<and> contextReleased audioContext)"
  shows "sourceReleased source' \<and> contextReleased ctx'"
proof -
  have "sourceReleased source'"
    using assms
    by (cases source)
       (auto simp: cleanupAudio_def Let_def disconnect_def sourceReleased_def wellBehaved_def
             split: if_splits)
  moreover have "contextReleased ctx'"
    using assms
    by (cases audioContext)
       (auto simp: cleanupAudio_def Let_def close_def contextReleased_def wellBehaved_def
             split: if_splits)
  ultimately show ?thesis ..
qed

lemma stopMicrophone_releases:
  assumes "stopMicrophone browser stream audioContext = Inr (stream', ctx')"
    and "wellBehaved browser \<or> contextReleased audioContext"
  shows "streamReleased stream' \<and> contextReleased ctx'"
proof -
  have "streamReleased stream'"
    using assms(1)
    by (cases stream)
       (auto simp: stopMicrophone_def Let_def stop_def streamReleased_def list_all_iff)
  moreover have "contextReleased ctx'"
    using assms
    by (cases audioContext)
       (auto simp: stopMicrophone_def Let_def close_def settled_def contextReleased_def
                   wellBehaved_def
             split: if_splits)
  ultimately show ?thesis ..
qed

lemma cleanupAudioTimes_released:
  "\<exists>source' ctx'.
     cleanupAudioTimes n browser source audioContext = Inr (source', ctx') \<and>
     ((wellBehaved browser \<and> 0 < n) \<or> (sourceReleased source \<and> contextReleased audioContext)
        \<longrightarrow> sourceReleased source' \<and> contextReleased ctx')"
proof (induction n arbitrary: source audioContext)
  case 0
  then show ?case by simp
next
  case (Suc n)
  obtain s1 c1 where first: "cleanupAudio browser source audioContext = Inr (s1, c1)"
    using cleanupAudio_returns by blast
  obtain s2 c2 where rest: "cleanupAudioTimes n browser s1 c1 = Inr (s2, c2)"
      and keep: "sourceReleased s1 \<and> contextReleased c1 \<longrightarrow> sourceReleased s2 \<and> contextReleased c2"
    using Suc.IH [of s1 c1] by blast
  have "cleanupAudioTimes (Suc n) browser source audioContext = Inr (s2, c2)"
    using first rest by simp
  moreover have "sourceReleased s2 \<and> contextReleased c2"
    if "(wellBehaved browser \<and> 0 < Suc n) \<or> (sourceReleased source \<and> contextReleased audioContext)"
    using cleanupAudio_releases [OF first] that keep by blast
  ultimately show ?case by blast
qed

lemma stopMicrophoneTimes_released:
  "\<exists>stream' ctx'.
     stopMicrophoneTimes n browser stream audioContext = Inr (stream', ctx') \<and>
     ((wellBehaved browser \<and> 0 < n) \<or> (streamReleased stream \<and> contextReleased audioContext)
        \<longrightarrow> streamReleased stream' \<and> contextReleased ctx')"
proof (induction n arbitrary: stream audioContext)
  case 0
  then show ?case by simp
next
  case (Suc n)
  obtain s1 c1 where first: "stopMicrophone browser stream audioContext = Inr (s1, c1)"
    using stopMicrophone_returns by blast
  obtain s2 c2 where rest: "stopMicrophoneTimes n browser s1 c1 = Inr (s2, c2)"
      and keep: "streamReleased s1 \<and> contextReleased c1 \<longrightarrow> streamReleased s2 \<and> contextReleased c2"
    using Suc.IH [of s1 c1] by blast
  have "stopMicrophoneTimes (Suc n) browser stream audioContext = Inr (s2, c2)"
    using first rest by simp
  moreover have "streamReleased s2 \<and> contextReleased c2"
    if "(wellBehaved browser \<and> 0 < Suc n) \<or> (streamReleased stream \<and> contextReleased audioContext)"
    using stopMicrophone_releases [OF first] that keep by blast
  ultimately show ?case by blast
qed

text \<open>
  C10. Teardown is total and idempotent. Whatever the browser decides about each
  \<open>disconnect()\<close> and each \<open>close()\<close>, any number of consecutive calls of \<open>cleanupAudio\<close>, and
  likewise of \<open>stopMicrophone\<close>, on any arguments (absent, already disconnected, already
  closed or still open) return without raising. In a browser where these calls fail on
  released objects only, the objects are released after the first call and after every
  further one: the source has no output left, every track of the stream has ended, and
  the context is closed or, after the unawaited close of \<open>cleanupAudio\<close>, closing.
\<close>

theorem teardown_total_and_idempotent:
  "(\<exists>source' ctx'.
      cleanupAudioTimes n browser source audioContext = Inr (source', ctx') \<and>
      (wellBehaved browser \<and> 0 < n \<longrightarrow> sourceReleased source' \<and> contextReleased ctx')) \<and>
   (\<exists>stream' ctx'.
      stopMicrophoneTimes n browser stream audioContext = Inr (stream', ctx') \<and>
      (wellBehaved browser \<and> 0 < n \<longrightarrow> streamReleased stream' \<and> contextReleased ctx'))"
  using cleanupAudioTimes_released [of n browser source audioContext]
        stopMicrophoneTimes_released [of n browser stream audioContext]
  by blast

theorem teardown_total_and_idempotent_witness:
  "wellBehaved \<lparr>disconnectRaises = (\<lambda>node. \<not> hasOutput node),
                closeRejects = (\<lambda>ctx. state ctx = Closed \<or> closing ctx)\<rparr> \<and>
   (0::nat) < 2 \<and>
   cleanupAudioTimes 2
     \<lparr>disconnectRaises = (\<lambda>node. \<not> hasOutput node),
      closeRejects = (\<lambda>ctx. state ctx = Closed \<or> closing ctx)\<rparr>
     (Some \<lparr>hasOutput = True\<rparr>) (Some \<lparr>state = Running, closing = False\<rparr>)
   = Inr (Some \<lparr>hasOutput = False\<rparr>, Some \<lparr>state = Running, closing = True\<rparr>) \<and>
   sourceReleased (Some \<lparr>hasOutput = False\<rparr>) \<and>
   contextReleased (Some \<lparr>state = Running, closing = True\<rparr>) \<and>
   stopMicrophoneTimes 2
     \<lparr>disconnectRaises = (\<lambda>node. \<not> hasOutput node),
      closeRejects = (\<lambda>ctx. state ctx = Closed \<or> closing ctx)\<rparr>
     (Some [Live, Live]) (Some \<lparr>state = Running, closing = False\<rparr>)
   = Inr (Some [Ended, Ended], Some \<lparr>state = Closed, closing = False\<rparr>) \<and>
   streamReleased (Some [Ended, Ended]) \<and>
   contextReleased (Some \<lparr>state = Closed, closing = False\<rparr>)"
proof -
  let ?b = "\<lparr>disconnectRaises = (\<lambda>node. \<not> hasOutput node),
             closeRejects = (\<lambda>ctx. state ctx = Closed \<or> closing ctx)\<rparr>"
  have h: "wellBehaved ?b" by (simp add: wellBehaved_def)
  have n: "(0::nat) < 2" by simp
  have two: "(2::nat) = Suc (Suc 0)" by simp
  have c: "cleanupAudioTimes 2 ?b (Some \<lparr>hasOutput = True\<rparr>) (Some \<lparr>state = Running, closing = False\<rparr>)
           = Inr (Some \<lparr>hasOutput = False\<rparr>, Some \<lparr>state = Running, closing = True\<rparr>)"
    unfolding two by (simp add: cleanupAudio_def disconnect_def close_def)
  have m: "stopMicrophoneTimes 2 ?b (Some [Live, Live]) (Some \<lparr>state = Running, closing = False\<rparr>)
           = Inr (Some [Ended, Ended], Some \<lparr>state = Closed, closing = False\<rparr>)"
    unfolding two by (simp add: stopMicrophone_def stop_def close_def settled_def)
  show ?thesis
    using h n c m
      teardown_total_and_idempotent
        [of 2 ?b "Some \<lparr>hasOutput = True\<rparr>" "Some \<lparr>state = Running, closing = False\<rparr>"
            "Some [Live, Live]"]
    by simp
qed

section \<open>Parameter validation and the rebuild\<close>










end
